theory Spec2Isabelle
  imports Main
begin

section \<open>Python strings\<close>

text \<open>
  A Python \<open>str\<close> is modelled as a \<open>string\<close> whose characters are the code points
  0..255. On these code points \<open>str.isspace\<close>, \<open>str.lower\<close>, \<open>str.strip\<close> and
  \<open>str.split\<close> are written out below as CPython computes them; code points above 255
  are outside the model.
\<close>

definition is_space :: "char \<Rightarrow> bool" where
  "is_space c =
     (let n = (of_char c :: nat)
      in (9 \<le> n \<and> n \<le> 13) \<or> (28 \<le> n \<and> n \<le> 32) \<or> n = 133 \<or> n = 160)"

definition lower_char :: "char \<Rightarrow> char" where
  "lower_char c =
     (let n = (of_char c :: nat)
      in if (65 \<le> n \<and> n \<le> 90) \<or> (192 \<le> n \<and> n \<le> 222 \<and> n \<noteq> 215)
         then char_of (n + 32) else c)"

definition str_lower :: "string \<Rightarrow> string" where
  "str_lower s = map lower_char s"

definition str_strip :: "string \<Rightarrow> string" where
  "str_strip s = rev (dropWhile is_space (rev (dropWhile is_space s)))"

text \<open>
  \<open>str.split()\<close> without arguments: runs of whitespace separate the tokens, and
  leading and trailing whitespace produce no empty token. \<open>split_from cur s\<close> scans
  \<open>s\<close> with the token collected so far in \<open>cur\<close>.
\<close>

fun split_from :: "string \<Rightarrow> string \<Rightarrow> string list" where
  "split_from cur [] = (if cur = [] then [] else [cur])"
| "split_from cur (c # cs) =
     (if is_space c
      then (if cur = [] then split_from [] cs else cur # split_from [] cs)
      else split_from (cur @ [c]) cs)"

definition str_split :: "string \<Rightarrow> string list" where
  "str_split s = split_from [] s"

section \<open>The clock and \<open>strftime\<close>\<close>

record datetime =
  year :: nat
  month :: nat
  day :: nat
  hour :: nat
  minute :: nat
  second :: nat

text \<open>The values a Python \<open>datetime\<close> holds whose year prints with four digits.\<close>

definition valid_datetime :: "datetime \<Rightarrow> bool" where
  "valid_datetime d =
     (1000 \<le> year d \<and> year d \<le> 9999 \<and> 1 \<le> month d \<and> month d \<le> 12 \<and>
      1 \<le> day d \<and> day d \<le> 31 \<and> hour d \<le> 23 \<and> minute d \<le> 59 \<and> second d \<le> 59)"

definition digit :: "nat \<Rightarrow> char" where
  "digit n = char_of (48 + n mod 10)"

definition pad2 :: "nat \<Rightarrow> string" where
  "pad2 n = [digit (n div 10), digit n]"

definition pad4 :: "nat \<Rightarrow> string" where
  "pad4 n = [digit (n div 1000), digit (n div 100), digit (n div 10), digit n]"

text \<open>\<open>d.strftime("%Y%m%d_%H%M%S")\<close>.\<close>

definition strftime :: "datetime \<Rightarrow> string" where
  "strftime d =
     pad4 (year d) @ pad2 (month d) @ pad2 (day d) @ ''_'' @
     pad2 (hour d) @ pad2 (minute d) @ pad2 (second d)"

text \<open>Reading a decimal numeral back, to state what a timestamp shows.\<close>

definition digit_val :: "char \<Rightarrow> nat" where
  "digit_val c = of_char c - 48"

definition is_digit :: "char \<Rightarrow> bool" where
  "is_digit c = (48 \<le> (of_char c :: nat) \<and> (of_char c :: nat) \<le> 57)"

definition decimal :: "string \<Rightarrow> nat" where
  "decimal s = foldl (\<lambda>a c. 10 * a + digit_val c) 0 s"

section \<open>The world: the oracle's thread, the file system, the trace\<close>

datatype block = TextBlock string | ImageBlock

record message =
  role :: string
  assistant_id :: "string option"
  content :: "block list"

text \<open>
  Every call the program makes on the outside world is recorded, in program order.
\<close>

datatype event =
    SendMessage string
  | CreateRun
  | CheckRunStatus string
  | Sleep nat
  | ListMessages
  | Print string
  | LogError string
  | Popen string
  | OpenWrite string
  | Write string string
  | CloseFile string
  | ReadFile string

record world =
  thread :: "message list"
  runs :: nat
  execs :: nat
  files :: "string \<Rightarrow> string option"
  open_files :: "string list"
  trace :: "event list"

text \<open>
  The exceptions the \<open>try\<close> block of \<open>execute_command\<close> can meet, by the
  \<open>except\<close> clause that takes them, each with its message text.
\<close>

datatype exn =
    CalledProcessError string
  | FileNotFound string
  | OSError string
  | OtherException string

text \<open>
  What \<open>subprocess.Popen\<close> does: it raises, or the child runs, writes the lines of its
  merged stdout/stderr stream and exits with a status.
\<close>

datatype process = PopenRaises exn | Started "string list" int

text \<open>
  The environment: everything the program does not decide. Runs and executions are
  numbered from 0 in the order the program makes them.
  \<^item> \<open>assistant\<close>: the id \<open>create_assistant\<close> returned;
  \<^item> \<open>status_of r j\<close>: the status the \<open>j\<close>-th poll of run \<open>r\<close> reads;
  \<^item> \<open>replies_of r\<close>: the content of the messages run \<open>r\<close> has added to the thread
    when it reports \<open>completed\<close>, oldest first;
  \<^item> \<open>now k\<close>, \<open>popen k command\<close>, \<open>open_w k filename\<close>: the clock, the process and the
    result of opening the artifact for writing in the \<open>k\<close>-th execution.
\<close>

record env =
  assistant :: string
  status_of :: "nat \<Rightarrow> nat \<Rightarrow> string"
  replies_of :: "nat \<Rightarrow> block list list"
  now :: "nat \<Rightarrow> datetime"
  popen :: "nat \<Rightarrow> string \<Rightarrow> process"
  open_w :: "nat \<Rightarrow> string \<Rightarrow> exn option"

datatype py_error = IndexError | AttributeError | UnboundLocalError | FileNotFoundError

text \<open>
  How a piece of the program ends: it returns a value, an exception leaves it uncaught,
  or the fuel of the model ran out while it was still looping. Each carries the world
  as it then is.
\<close>

datatype 'a result = Returns 'a world | Raises py_error world | OutOfFuel world

definition emit :: "event \<Rightarrow> world \<Rightarrow> world" where
  "emit ev w = w\<lparr>trace := trace w @ [ev]\<rparr>"

section \<open>The oracle client\<close>

definition user_message :: "string \<Rightarrow> message" where
  "user_message c = \<lparr>role = ''user'', assistant_id = None, content = [TextBlock c]\<rparr>"

definition assistant_message :: "env \<Rightarrow> block list \<Rightarrow> message" where
  "assistant_message e bs = \<lparr>role = ''assistant'', assistant_id = Some (assistant e), content = bs\<rparr>"

definition send_message :: "string \<Rightarrow> world \<Rightarrow> world" where
  "send_message c w = emit (SendMessage c) (w\<lparr>thread := thread w @ [user_message c]\<rparr>)"

definition create_run :: "world \<Rightarrow> nat \<times> world" where
  "create_run w = (runs w, emit CreateRun (w\<lparr>runs := Suc (runs w)\<rparr>))"

definition check_run_status :: "env \<Rightarrow> nat \<Rightarrow> nat \<Rightarrow> world \<Rightarrow> string \<times> world" where
  "check_run_status e run j w =
     (let st = status_of e run j in (st, emit (CheckRunStatus st) w))"

text \<open>A run that reports \<open>completed\<close> has added its messages to the thread.\<close>

definition deliver :: "env \<Rightarrow> nat \<Rightarrow> world \<Rightarrow> world" where
  "deliver e run w = w\<lparr>thread := thread w @ map (assistant_message e) (replies_of e run)\<rparr>"

text \<open>\<open>messages.list\<close> returns the thread newest first.\<close>

definition list_messages :: "world \<Rightarrow> message list" where
  "list_messages w = rev (thread w)"

definition get_assistant_responses :: "env \<Rightarrow> world \<Rightarrow> message list \<times> world" where
  "get_assistant_responses e w =
     (filter (\<lambda>msg. assistant_id msg = Some (assistant e)) (list_messages w),
      emit ListMessages w)"

definition is_pen_test_complete :: "string \<Rightarrow> bool" where
  "is_pen_test_complete message = (str_lower (str_strip message) = ''done'')"

section \<open>\<open>execute_command\<close>\<close>

definition written :: "world \<Rightarrow> string \<Rightarrow> string" where
  "written w f = (case files w f of None \<Rightarrow> [] | Some c \<Rightarrow> c)"

definition open_write :: "string \<Rightarrow> world \<Rightarrow> world" where
  "open_write f w =
     emit (OpenWrite f) (w\<lparr>files := (files w)(f \<mapsto> []), open_files := f # open_files w\<rparr>)"

definition file_write :: "string \<Rightarrow> string \<Rightarrow> world \<Rightarrow> world" where
  "file_write f l w = emit (Write f l) (w\<lparr>files := (files w)(f \<mapsto> written w f @ l)\<rparr>)"

definition close_file :: "string \<Rightarrow> world \<Rightarrow> world" where
  "close_file f w = emit (CloseFile f) (w\<lparr>open_files := remove1 f (open_files w)\<rparr>)"

text \<open>The loop \<open>for line in proc.stdout: print(line, end=''); file.write(line)\<close>.\<close>

fun write_lines :: "string \<Rightarrow> string list \<Rightarrow> world \<Rightarrow> world" where
  "write_lines f [] w = w"
| "write_lines f (l # ls) w = write_lines f ls (file_write f l (emit (Print l) w))"

text \<open>The \<open>except\<close> clauses, in the order of the source.\<close>

fun log_exception :: "string \<Rightarrow> exn \<Rightarrow> world \<Rightarrow> world" where
  "log_exception base (CalledProcessError t) w = emit (LogError (''Error executing command: '' @ t)) w"
| "log_exception base (FileNotFound t) w = emit (LogError (''Command not found: '' @ base)) w"
| "log_exception base (OSError t) w = emit (LogError (''OS error occurred: '' @ t)) w"
| "log_exception base (OtherException t) w =
     emit (LogError (''Unexpected error executing command: '' @ t)) w"

definition artifact_name :: "string \<Rightarrow> datetime \<Rightarrow> string" where
  "artifact_name base_command d = base_command @ ''_results_'' @ strftime d @ ''.txt''"

text \<open>
  The result is \<open>Inr filename\<close> when the function returns, and \<open>Inl x\<close> when the
  exception \<open>x\<close> leaves it, with the world it leaves behind.
\<close>

definition execute_command :: "env \<Rightarrow> string \<Rightarrow> world \<Rightarrow> (py_error + string) \<times> world" where
  "execute_command e command w0 =
     (let k = execs w0;
          w1 = emit (Print (''Executing command: '' @ command)) (w0\<lparr>execs := Suc k\<rparr>)
      in case str_split command of
           [] \<Rightarrow> (Inl IndexError, w1)
         | base_command # _ \<Rightarrow>
             (let filename = artifact_name base_command (now e k);
                  w2 = emit (Popen command) w1
              in case popen e k command of
                   PopenRaises x \<Rightarrow> (Inr filename, log_exception base_command x w2)
                 | Started lines rc \<Rightarrow>
                     (case open_w e k filename of
                        Some x \<Rightarrow> (Inr filename, log_exception base_command x w2)
                      | None \<Rightarrow>
                          (Inr filename,
                           close_file filename
                             (write_lines filename lines (open_write filename w2))))))"

section \<open>\<open>main\<close>\<close>

text \<open>
  The inner loop of \<open>main\<close> (lines 152 to 159): poll run \<open>run\<close>, from its \<open>j\<close>-th
  poll on, with \<open>message_content\<close> as it is bound so far (\<open>None\<close>: not yet bound).
\<close>

fun wait_for_response ::
  "nat \<Rightarrow> env \<Rightarrow> nat \<Rightarrow> nat \<Rightarrow> string option \<Rightarrow> world \<Rightarrow> string option result" where
  "wait_for_response 0 e run j message_content w = OutOfFuel w"
| "wait_for_response (Suc fuel) e run j message_content w =
     (case check_run_status e run j w of
        (st, w1) \<Rightarrow>
          if st = ''completed''
          then (case get_assistant_responses e (deliver e run w1) of
                  (assistant_responses, w2) \<Rightarrow>
                    if assistant_responses \<noteq> []
                    then (case content (hd assistant_responses) of
                            [] \<Rightarrow> Raises IndexError w2
                          | TextBlock v # _ \<Rightarrow> Returns (Some v) w2
                          | ImageBlock # _ \<Rightarrow> Raises AttributeError w2)
                    else Returns message_content w2)
          else wait_for_response fuel e run (Suc j) message_content (emit (Sleep 10) w1))"

text \<open>
  The rest of the body of the outer loop (lines 161 to 169), for the
  \<open>message_content\<close> the poll left: the loop ends, or it goes on with a new run, or an
  exception leaves it.
\<close>

datatype step = Done world | Next nat world | Fail py_error world

definition act :: "env \<Rightarrow> string \<Rightarrow> world \<Rightarrow> step" where
  "act e message_content w =
     (if is_pen_test_complete message_content
      then Done (emit (Print ''Penetration Testing is complete.'') w)
      else (case execute_command e message_content w of
              (Inl x, w1) \<Rightarrow> Fail x w1
            | (Inr filename, w1) \<Rightarrow>
                (case files w1 filename of
                   None \<Rightarrow> Fail FileNotFoundError w1
                 | Some file_content \<Rightarrow>
                     (case create_run (send_message file_content (emit (ReadFile filename) w1)) of
                        (run, w2) \<Rightarrow> Next run w2))))"

fun main_loop :: "nat \<Rightarrow> env \<Rightarrow> nat \<Rightarrow> string option \<Rightarrow> world \<Rightarrow> unit result" where
  "main_loop 0 e run message_content w = OutOfFuel w"
| "main_loop (Suc fuel) e run message_content w =
     (case wait_for_response fuel e run 0 message_content w of
        OutOfFuel w1 \<Rightarrow> OutOfFuel w1
      | Raises x w1 \<Rightarrow> Raises x w1
      | Returns None w1 \<Rightarrow> Raises UnboundLocalError w1
      | Returns (Some m) w1 \<Rightarrow>
          (case act e m w1 of
             Done w2 \<Rightarrow> Returns () w2
           | Fail x w2 \<Rightarrow> Raises x w2
           | Next run' w2 \<Rightarrow> main_loop fuel e run' (Some m) w2))"

definition world0 :: world where
  "world0 = \<lparr>thread = [], runs = 0, execs = 0, files = Map.empty, open_files = [], trace = []\<rparr>"

definition main :: "nat \<Rightarrow> env \<Rightarrow> string \<Rightarrow> world \<Rightarrow> unit result" where
  "main fuel e ip_address w =
     (case create_run
             (send_message (''Start a penetration test on this machine '' @ ip_address @ ''.'') w) of
        (run, w1) \<Rightarrow> main_loop fuel e run None w1)"

section \<open>Notions the properties are stated with\<close>

text \<open>The leading whitespace-delimited token of a string, by its description.\<close>

definition leading_token :: "string \<Rightarrow> string" where
  "leading_token s = takeWhile (\<lambda>c. \<not> is_space c) (dropWhile is_space s)"

text \<open>The events a piece of the program added to the trace.\<close>

definition new_events :: "world \<Rightarrow> world \<Rightarrow> event list" where
  "new_events w w' = drop (length (trace w)) (trace w')"




text \<open>A concrete environment and clock reading, for the examples.\<close>

definition clock0 :: datetime where
  "clock0 = \<lparr>year = 2024, month = 3, day = 7, hour = 9, minute = 5, second = 1\<rparr>"

definition env0 :: env where
  "env0 = \<lparr>assistant = ''asst_1'',
            status_of = (\<lambda>r j. ''completed''),
            replies_of = (\<lambda>r. if r = 0 then [[TextBlock ''nmap 10.0.0.5'']] else [[TextBlock ''Done'']]),
            now = (\<lambda>k. clock0),
            popen = (\<lambda>k c. Started [''Host is up\<newline>'', ''80/tcp open\<newline>''] 0),
            open_w = (\<lambda>k f. None)\<rparr>"


text \<open>An environment in which \<open>Popen\<close> raises an \<open>OSError\<close>, otherwise as \<open>env0\<close>.\<close>

definition env_no_launch :: env where
  "env_no_launch = env0\<lparr>popen := \<lambda>k c. PopenRaises (OSError ''[Errno 11] Resource temporarily unavailable'')\<rparr>"

text \<open>The world a piece of the program leaves, however it ends.\<close>

fun result_world :: "'a result \<Rightarrow> world" where
  "result_world (Returns v w) = w"
| "result_world (Raises x w) = w"
| "result_world (OutOfFuel w) = w"

text \<open>
  More environments: one whose runs report \<open>failed\<close> at every poll, one whose runs
  complete without any message, one whose first run adds two messages.
\<close>

definition env_failed :: env where
  "env_failed = env0\<lparr>status_of := \<lambda>r j. ''failed''\<rparr>"

definition env_silent :: env where
  "env_silent = env0\<lparr>replies_of := \<lambda>r. []\<rparr>"






section \<open>Strings, timestamps and files: auxiliary facts\<close>

lemma split_from_Nil_iff: "split_from cur s = [] \<longleftrightarrow> cur = [] \<and> (\<forall>c\<in>set s. is_space c)"
  by (induction s arbitrary: cur) auto

lemma split_from_hd:
  "cur \<noteq> [] \<Longrightarrow> \<exists>rest. split_from cur s = (cur @ takeWhile (\<lambda>c. \<not> is_space c) s) # rest"
proof (induction s arbitrary: cur)
  case Nil
  then show ?case by simp
next
  case (Cons a s)
  show ?case
  proof (cases "is_space a")
    case True
    with Cons.prems show ?thesis by simp
  next
    case False
    from Cons.IH[of "cur @ [a]"] obtain rest where
      "split_from (cur @ [a]) s = ((cur @ [a]) @ takeWhile (\<lambda>c. \<not> is_space c) s) # rest"
      by auto
    with False show ?thesis by simp
  qed
qed

lemma split_from_dropWhile: "split_from [] s = split_from [] (dropWhile is_space s)"
  by (induction s) auto


lemma str_split_Nil_iff: "str_split s = [] \<longleftrightarrow> (\<forall>c\<in>set s. is_space c)"
  by (simp add: str_split_def split_from_Nil_iff)

lemma str_split_Cons:
  assumes "str_split s = base # rest"
  shows "base = leading_token s \<and> base \<noteq> []" 
proof (cases "dropWhile is_space s")
  case Nil
  then have "\<forall>c\<in>set s. is_space c" by (simp add: dropWhile_eq_Nil_conv)
  then have "str_split s = []" by (simp add: str_split_Nil_iff)
  with assms show ?thesis by simp
next
  case (Cons c cs)
  then have c: "\<not> is_space c" using hd_dropWhile[of is_space s] by auto
  have "str_split s = split_from [] (c # cs)" 
    using split_from_dropWhile[of s] Cons by (simp add: str_split_def)
  also have "\<dots> = split_from [c] cs" using c by simp
  finally obtain r where "str_split s = ([c] @ takeWhile (\<lambda>c. \<not> is_space c) cs) # r"
    using split_from_hd[of "[c]" cs] by auto
  with assms Cons c show ?thesis by (auto simp add: leading_token_def)
qed

lemma emit_fields [simp]:
  "thread (emit ev w) = thread w" "runs (emit ev w) = runs w" "execs (emit ev w) = execs w"
  "files (emit ev w) = files w" "open_files (emit ev w) = open_files w"
  "trace (emit ev w) = trace w @ [ev]"
  by (simp_all add: emit_def)

lemma written_emit [simp]: "written (emit ev w) f = written w f"
  by (simp add: written_def)

lemma file_write_fields [simp]:
  "thread (file_write f l w) = thread w" "runs (file_write f l w) = runs w"
  "execs (file_write f l w) = execs w"
  "files (file_write f l w) = (files w)(f \<mapsto> written w f @ l)"
  "open_files (file_write f l w) = open_files w"
  "trace (file_write f l w) = trace w @ [Write f l]"
  by (simp_all add: file_write_def)

lemma open_write_fields [simp]:
  "thread (open_write f w) = thread w" "runs (open_write f w) = runs w"
  "execs (open_write f w) = execs w"
  "files (open_write f w) = (files w)(f \<mapsto> [])"
  "open_files (open_write f w) = f # open_files w"
  "trace (open_write f w) = trace w @ [OpenWrite f]"
  by (simp_all add: open_write_def)

lemma close_file_fields [simp]:
  "thread (close_file f w) = thread w" "runs (close_file f w) = runs w"
  "execs (close_file f w) = execs w"
  "files (close_file f w) = files w"
  "open_files (close_file f w) = remove1 f (open_files w)"
  "trace (close_file f w) = trace w @ [CloseFile f]"
  by (simp_all add: close_file_def)

lemma log_exception_fields [simp]:
  "thread (log_exception b x w) = thread w" "runs (log_exception b x w) = runs w"
  "execs (log_exception b x w) = execs w"
  "files (log_exception b x w) = files w"
  "open_files (log_exception b x w) = open_files w"
  by (cases x; simp)+


lemma write_lines_fields [simp]:
  "thread (write_lines f ls w) = thread w" "runs (write_lines f ls w) = runs w"
  "execs (write_lines f ls w) = execs w"
  "open_files (write_lines f ls w) = open_files w"
  by (induction ls arbitrary: w; simp)+




lemma of_char_digit: "(of_char (digit n) :: nat) = 48 + n mod 10"
  by (simp add: digit_def)

lemma digit_val_digit [simp]: "digit_val (digit n) = n mod 10"
  by (simp add: digit_val_def of_char_digit)

lemma is_digit_digit [simp]: "is_digit (digit n)"
  by (simp add: is_digit_def of_char_digit)

lemma decimal_pad2: "n \<le> 99 \<Longrightarrow> decimal (pad2 n) = n"
  by (simp add: decimal_def pad2_def)

lemma decimal_pad4:
  assumes "n \<le> 9999"
  shows "decimal (pad4 n) = n"
proof -
  define q1 where "q1 = n div 10"
  define q2 where "q2 = q1 div 10"
  define q3 where "q3 = q2 div 10"
  have a: "n div 100 = q2" "n div 1000 = q3"
    by (simp_all add: q1_def q2_def q3_def div_mult2_eq)
  have "q3 < 10" using assms unfolding a[symmetric] by simp
  then have b: "q3 mod 10 = q3" by simp
  have "decimal (pad4 n) = 10 * (10 * (10 * (q3 mod 10) + q2 mod 10) + q1 mod 10) + n mod 10"
    by (simp add: decimal_def pad4_def a) (simp add: q1_def)
  also have "\<dots> = n"
  proof -
    have c3: "10 * q3 + q2 mod 10 = q2" by (simp add: q3_def)
    have c2: "10 * q2 + q1 mod 10 = q1" by (simp add: q2_def)
    have c1: "10 * q1 + n mod 10 = n" by (simp add: q1_def)
    show ?thesis by (simp only: b c3 c2 c1)
  qed
  finally show ?thesis .
qed

lemma strftime_length: "length (strftime d) = 15"
  by (simp add: strftime_def pad2_def pad4_def)

lemma strftime_shape:
  "strftime d ! 8 = CHR ''_''" "list_all is_digit (take 8 (strftime d))"
  "list_all is_digit (drop 9 (strftime d))"
  by (simp_all add: strftime_def pad2_def pad4_def)

lemma strftime_fields:
  assumes "valid_datetime d"
  shows "decimal (take 4 (strftime d)) = year d"
    "decimal (take 2 (drop 4 (strftime d))) = month d"
    "decimal (take 2 (drop 6 (strftime d))) = day d"
    "decimal (take 2 (drop 9 (strftime d))) = hour d"
    "decimal (take 2 (drop 11 (strftime d))) = minute d"
    "decimal (take 2 (drop 13 (strftime d))) = second d"
proof -
  have t: "take 4 (strftime d) = pad4 (year d)"
    "take 2 (drop 4 (strftime d)) = pad2 (month d)"
    "take 2 (drop 6 (strftime d)) = pad2 (day d)"
    "take 2 (drop 9 (strftime d)) = pad2 (hour d)"
    "take 2 (drop 11 (strftime d)) = pad2 (minute d)"
    "take 2 (drop 13 (strftime d)) = pad2 (second d)"
    by (simp_all add: strftime_def pad2_def pad4_def)
  from assms show "decimal (take 4 (strftime d)) = year d"
    "decimal (take 2 (drop 4 (strftime d))) = month d"
    "decimal (take 2 (drop 6 (strftime d))) = day d"
    "decimal (take 2 (drop 9 (strftime d))) = hour d"
    "decimal (take 2 (drop 11 (strftime d))) = minute d"
    "decimal (take 2 (drop 13 (strftime d))) = second d"
    unfolding t by (simp_all add: valid_datetime_def decimal_pad2 decimal_pad4)
qed

section \<open>\<open>execute_command\<close>: the leading token\<close>

lemma blank_not_complete:
  assumes "list_all is_space s"
  shows "\<not> is_pen_test_complete s"
proof -
  from assms have d: "dropWhile is_space s = []" by (simp add: list_all_iff)
  show ?thesis unfolding is_pen_test_complete_def str_strip_def str_lower_def d by simp
qed

text \<open>
  Claim C10. For an action string that is empty or holds only whitespace,
  \<open>command.split()\<close> is the empty list and \<open>[0]\<close> raises \<open>IndexError\<close>. This
  happens before the \<open>try\<close> block: nothing is logged, no process is started and no
  file is opened, so the file system is as before and the only event is the
  \<open>print\<close> of line 116. The exception leaves \<open>execute_command\<close> and, since such a
  string is not the completion sentinel, leaves the loop body of \<open>main\<close> too.
\<close>

theorem execute_command_blank_raises:
  assumes "list_all is_space command"
  shows "\<exists>w'. execute_command e command w = (Inl IndexError, w') \<and>
              act e command w = Fail IndexError w' \<and>
              files w' = files w \<and> open_files w' = open_files w \<and>
              new_events w w' = [Print (''Executing command: '' @ command)]"
proof -
  from assms have s: "str_split command = []"
    by (simp add: str_split_Nil_iff list_all_iff)
  let ?w = "emit (Print (''Executing command: '' @ command)) (w\<lparr>execs := Suc (execs w)\<rparr>)"
  have x: "execute_command e command w = (Inl IndexError, ?w)"
    by (simp add: execute_command_def s Let_def)
  have a: "act e command w = Fail IndexError ?w"
    using blank_not_complete[OF assms] by (simp add: act_def x)
  show ?thesis
    using x a by (simp add: new_events_def)
qed

theorem execute_command_blank_raises_witness:
  "list_all is_space ''  '' \<and>
   fst (execute_command env0 ''  '' world0) = Inl IndexError \<and>
   files (snd (execute_command env0 ''  '' world0)) = Map.empty \<and>
   trace (snd (execute_command env0 ''  '' world0)) = [Print ''Executing command:   '']"
proof -
  have h: "list_all is_space ''  ''" by (simp add: is_space_def)
  from execute_command_blank_raises[OF h, of env0 world0]
  show ?thesis using h by (auto simp add: new_events_def world0_def)
qed

section \<open>\<open>execute_command\<close>: the handle, the name, the captured lines\<close>






lemma execute_command_fst:
  assumes "str_split command = base # rest"
  shows "fst (execute_command e command w) = Inr (artifact_name base (now e (execs w)))"
  using assms
  by (simp add: execute_command_def Let_def split: process.splits option.splits)

lemma split_example: "str_split ''nmap 10.0.0.5'' = [''nmap'', ''10.0.0.5'']"
  by (simp add: str_split_def is_space_def)

lemma name_example:
  "artifact_name ''nmap'' (now env0 (execs world0)) = ''nmap_results_20240307_090501.txt''"
  by code_simp



text \<open>
  Claim C6. Whenever \<open>execute_command\<close> returns, the name it returns is the leading
  whitespace-delimited token of the action, then \<open>_results_\<close>, then a timestamp, then
  \<open>.txt\<close>. The timestamp has 15 characters: eight digits, an underscore, six digits;
  read as decimal numerals they are the year, month, day, hour, minute and second of
  the clock reading of that execution (for a clock reading whose year has four
  digits). The name is a function of the action and that clock reading alone.
\<close>

theorem artifact_name_shape:
  assumes "execute_command e command w = (Inr filename, w')"
    and "valid_datetime (now e (execs w))"
  shows "\<exists>ts. filename = leading_token command @ ''_results_'' @ ts @ ''.txt'' \<and>
              leading_token command \<noteq> [] \<and>
              length ts = 15 \<and> ts ! 8 = CHR ''_'' \<and>
              list_all is_digit (take 8 ts) \<and> list_all is_digit (drop 9 ts) \<and>
              decimal (take 4 ts) = year (now e (execs w)) \<and>
              decimal (take 2 (drop 4 ts)) = month (now e (execs w)) \<and>
              decimal (take 2 (drop 6 ts)) = day (now e (execs w)) \<and>
              decimal (take 2 (drop 9 ts)) = hour (now e (execs w)) \<and>
              decimal (take 2 (drop 11 ts)) = minute (now e (execs w)) \<and>
              decimal (take 2 (drop 13 ts)) = second (now e (execs w))"
proof (cases "str_split command")
  case Nil
  with assms(1) show ?thesis by (simp add: execute_command_def Let_def)
next
  case (Cons base rest)
  from execute_command_fst[OF Cons, of e w] assms(1)
  have f: "filename = artifact_name base (now e (execs w))" by simp
  from str_split_Cons[OF Cons] have b: "base = leading_token command" "leading_token command \<noteq> []"
    by auto
  show ?thesis
    using f b strftime_length strftime_shape strftime_fields[OF assms(2)]
    by (intro exI[of _ "strftime (now e (execs w))"]) (simp add: artifact_name_def)
qed

theorem artifact_name_shape_witness:
  "valid_datetime (now env0 (execs world0)) \<and>
   fst (execute_command env0 ''nmap 10.0.0.5'' world0) = Inr ''nmap_results_20240307_090501.txt'' \<and>
   (\<exists>ts. ''nmap_results_20240307_090501.txt'' = leading_token ''nmap 10.0.0.5'' @ ''_results_'' @ ts @ ''.txt'' \<and>
         length ts = 15 \<and> decimal (take 4 ts) = 2024 \<and> decimal (take 2 (drop 13 ts)) = 1)"
proof -
  have v: "valid_datetime (now env0 (execs world0))"
    by (simp add: env0_def clock0_def valid_datetime_def)
  have f: "fst (execute_command env0 ''nmap 10.0.0.5'' world0) = Inr ''nmap_results_20240307_090501.txt''"
    using execute_command_fst[OF split_example, of env0 world0] name_example by simp
  then have x: "execute_command env0 ''nmap 10.0.0.5'' world0 =
      (Inr ''nmap_results_20240307_090501.txt'', snd (execute_command env0 ''nmap 10.0.0.5'' world0))"
    by (metis prod.collapse)
  have y: "year (now env0 (execs world0)) = 2024" "second (now env0 (execs world0)) = 1"
    by (simp_all add: env0_def clock0_def)
  from artifact_name_shape[OF x v] obtain ts where
    "''nmap_results_20240307_090501.txt'' = leading_token ''nmap 10.0.0.5'' @ ''_results_'' @ ts @ ''.txt''"
    "length ts = 15" "decimal (take 4 ts) = 2024" "decimal (take 2 (drop 13 ts)) = 1"
    unfolding y by blast
  then show ?thesis using v f by blast
qed



section \<open>The completion sentinel, spelled out\<close>

text \<open>
  \<open>is_pen_test_complete\<close> accepts exactly the strings that are one of the sixteen
  spellings of \<open>done\<close> in upper and lower case with whitespace, and nothing else,
  before and after.
\<close>

lemma of_char_lower:
  "(of_char (lower_char c) :: nat) =
     (if (65 \<le> (of_char c :: nat) \<and> (of_char c :: nat) \<le> 90) \<or>
         (192 \<le> (of_char c :: nat) \<and> (of_char c :: nat) \<le> 222 \<and> (of_char c :: nat) \<noteq> 215)
      then of_char c + 32 else of_char c)"
  by (auto simp add: lower_char_def Let_def)

lemma lower_char_eq_iff:
  assumes "97 \<le> (of_char l :: nat)" and "(of_char l :: nat) \<le> 122"
  shows "lower_char c = l \<longleftrightarrow> c = l \<or> (of_char c :: nat) + 32 = of_char l"
proof -
  have "lower_char c = l \<longleftrightarrow> (of_char (lower_char c) :: nat) = of_char l"
    by (metis of_char_eq_iff)
  also have "\<dots> \<longleftrightarrow> (of_char c :: nat) = of_char l \<or> (of_char c :: nat) + 32 = of_char l"
    using assms by (auto simp add: of_char_lower)
  also have "\<dots> \<longleftrightarrow> c = l \<or> (of_char c :: nat) + 32 = of_char l"
    by (metis of_char_eq_iff)
  finally show ?thesis .
qed

lemma upper_codes:
  "(of_char a :: nat) = 68 \<longleftrightarrow> a = CHR ''D''"
  "(of_char a :: nat) = 79 \<longleftrightarrow> a = CHR ''O''"
  "(of_char a :: nat) = 78 \<longleftrightarrow> a = CHR ''N''"
  "(of_char a :: nat) = 69 \<longleftrightarrow> a = CHR ''E''"
  using of_char_eq_iff[of a "CHR ''D''", where ?'a = nat]
    of_char_eq_iff[of a "CHR ''O''", where ?'a = nat]
    of_char_eq_iff[of a "CHR ''N''", where ?'a = nat]
    of_char_eq_iff[of a "CHR ''E''", where ?'a = nat]
  by simp_all

lemma lower_done:
  "lower_char a = CHR ''d'' \<longleftrightarrow> a = CHR ''d'' \<or> a = CHR ''D''"
  "lower_char a = CHR ''o'' \<longleftrightarrow> a = CHR ''o'' \<or> a = CHR ''O''"
  "lower_char a = CHR ''n'' \<longleftrightarrow> a = CHR ''n'' \<or> a = CHR ''N''"
  "lower_char a = CHR ''e'' \<longleftrightarrow> a = CHR ''e'' \<or> a = CHR ''E''"
  by (simp_all add: lower_char_eq_iff upper_codes)

lemma not_space_done:
  "a = CHR ''d'' \<or> a = CHR ''D'' \<Longrightarrow> \<not> is_space a"
  "a = CHR ''e'' \<or> a = CHR ''E'' \<Longrightarrow> \<not> is_space a"
  by (auto simp add: is_space_def)

lemma strip_parts:
  "\<exists>pre suf. m = pre @ str_strip m @ suf \<and> list_all is_space pre \<and> list_all is_space suf"
proof -
  let ?r = "dropWhile is_space m"
  have "rev ?r = takeWhile is_space (rev ?r) @ dropWhile is_space (rev ?r)" by simp
  then have "?r = rev (dropWhile is_space (rev ?r)) @ rev (takeWhile is_space (rev ?r))"
    by (metis rev_append rev_rev_ident)
  then have "m = takeWhile is_space m @ str_strip m @ rev (takeWhile is_space (rev ?r))"
    unfolding str_strip_def by (metis takeWhile_dropWhile_id)
  moreover have "list_all is_space (takeWhile is_space m)"
    by (auto simp add: list_all_iff dest: set_takeWhileD)
  moreover have "list_all is_space (rev (takeWhile is_space (rev ?r)))"
    by (auto simp add: list_all_iff dest: set_takeWhileD)
  ultimately show ?thesis by blast
qed

lemma strip_core:
  assumes "list_all is_space pre" and "list_all is_space suf"
    and "core \<noteq> []" and "\<not> is_space (hd core)" and "\<not> is_space (last core)"
  shows "str_strip (pre @ core @ suf) = core"
proof -
  have "dropWhile is_space (pre @ core @ suf) = dropWhile is_space (core @ suf)"
    using assms(1) by (simp add: list_all_iff dropWhile_append2)
  also have "\<dots> = core @ suf"
    using assms(3,4) by (cases core) simp_all
  finally have a: "dropWhile is_space (pre @ core @ suf) = core @ suf" .
  have "\<And>x. x \<in> set (rev suf) \<Longrightarrow> is_space x" using assms(2) by (simp add: list_all_iff)
  then have "dropWhile is_space (rev suf @ rev core) = dropWhile is_space (rev core)"
    by (rule dropWhile_append2)
  then have "dropWhile is_space (rev (core @ suf)) = dropWhile is_space (rev core)"
    by simp
  also have "\<dots> = rev core"
    using assms(3,5) by (cases "rev core") (auto simp add: last_rev hd_rev)
  finally show ?thesis unfolding str_strip_def a by simp
qed

lemma is_pen_test_complete_iff:
  "is_pen_test_complete m \<longleftrightarrow>
     (\<exists>pre suf a b c d. m = pre @ [a, b, c, d] @ suf \<and>
        list_all is_space pre \<and> list_all is_space suf \<and>
        (a = CHR ''d'' \<or> a = CHR ''D'') \<and> (b = CHR ''o'' \<or> b = CHR ''O'') \<and>
        (c = CHR ''n'' \<or> c = CHR ''N'') \<and> (d = CHR ''e'' \<or> d = CHR ''E''))"
proof
  assume "is_pen_test_complete m"
  then have l: "map lower_char (str_strip m) = ''done''"
    by (simp add: is_pen_test_complete_def str_lower_def)
  then obtain a b c d where s: "str_strip m = [a, b, c, d]"
    and "lower_char a = CHR ''d''" "lower_char b = CHR ''o''"
    "lower_char c = CHR ''n''" "lower_char d = CHR ''e''"
    by (auto simp add: map_eq_Cons_conv)
  then have "(a = CHR ''d'' \<or> a = CHR ''D'') \<and> (b = CHR ''o'' \<or> b = CHR ''O'') \<and>
        (c = CHR ''n'' \<or> c = CHR ''N'') \<and> (d = CHR ''e'' \<or> d = CHR ''E'')"
    by (simp add: lower_done)
  moreover from strip_parts[of m] s obtain pre suf where
    "m = pre @ [a, b, c, d] @ suf" "list_all is_space pre" "list_all is_space suf" by auto
  ultimately show "\<exists>pre suf a b c d. m = pre @ [a, b, c, d] @ suf \<and>
        list_all is_space pre \<and> list_all is_space suf \<and>
        (a = CHR ''d'' \<or> a = CHR ''D'') \<and> (b = CHR ''o'' \<or> b = CHR ''O'') \<and>
        (c = CHR ''n'' \<or> c = CHR ''N'') \<and> (d = CHR ''e'' \<or> d = CHR ''E'')" by blast
next
  assume "\<exists>pre suf a b c d. m = pre @ [a, b, c, d] @ suf \<and>
        list_all is_space pre \<and> list_all is_space suf \<and>
        (a = CHR ''d'' \<or> a = CHR ''D'') \<and> (b = CHR ''o'' \<or> b = CHR ''O'') \<and>
        (c = CHR ''n'' \<or> c = CHR ''N'') \<and> (d = CHR ''e'' \<or> d = CHR ''E'')"
  then obtain pre suf a b c d where m: "m = pre @ [a, b, c, d] @ suf"
    and sp: "list_all is_space pre" "list_all is_space suf"
    and ch: "a = CHR ''d'' \<or> a = CHR ''D''" "b = CHR ''o'' \<or> b = CHR ''O''"
      "c = CHR ''n'' \<or> c = CHR ''N''" "d = CHR ''e'' \<or> d = CHR ''E''"
    by blast
  have "str_strip m = [a, b, c, d]"
    unfolding m using sp not_space_done(1)[OF ch(1)] not_space_done(2)[OF ch(4)]
    by (intro strip_core) simp_all
  then show "is_pen_test_complete m"
    using ch by (simp add: is_pen_test_complete_def str_lower_def lower_done)
qed

section \<open>The body of the loop\<close>






lemma send_message_fields [simp]:
  "thread (send_message c w) = thread w @ [user_message c]" "runs (send_message c w) = runs w"
  "execs (send_message c w) = execs w" "files (send_message c w) = files w"
  "open_files (send_message c w) = open_files w"
  "trace (send_message c w) = trace w @ [SendMessage c]"
  by (simp_all add: send_message_def)




section \<open>The body of the loop: reading the artifact back\<close>


lemma act_no_launch_example:
  "(case act env_no_launch ''nmap 10.0.0.5'' world0 of Fail x w' \<Rightarrow> x = FileNotFoundError | _ \<Rightarrow> False)"
  by code_simp



text \<open>
  Claim C4, evaluated where it fails. In the environment \<open>env_no_launch\<close> process
  creation raises an \<open>OSError\<close>. The \<open>with\<close> statement of line 126 evaluates
  \<open>Popen\<close> before \<open>open\<close>, so no artifact is created; the exception is caught and
  logged and line 138 returns the name all the same. Back in \<open>main\<close>, line 166 opens
  that name for reading and \<open>FileNotFoundError\<close> leaves the loop.
\<close>

theorem launch_failure_no_artifact:
  "fst (execute_command env_no_launch ''nmap 10.0.0.5'' world0) = Inr ''nmap_results_20240307_090501.txt'' \<and>
   files (snd (execute_command env_no_launch ''nmap 10.0.0.5'' world0)) ''nmap_results_20240307_090501.txt'' = None \<and>
   (\<exists>w'. act env_no_launch ''nmap 10.0.0.5'' world0 = Fail FileNotFoundError w')"
proof -
  have "fst (execute_command env_no_launch ''nmap 10.0.0.5'' world0) = Inr ''nmap_results_20240307_090501.txt''"
    by code_simp
  moreover have "files (snd (execute_command env_no_launch ''nmap 10.0.0.5'' world0)) ''nmap_results_20240307_090501.txt'' = None"
    by code_simp
  moreover have "\<exists>w'. act env_no_launch ''nmap 10.0.0.5'' world0 = Fail FileNotFoundError w'"
    using act_no_launch_example by (cases "act env_no_launch ''nmap 10.0.0.5'' world0") auto
  ultimately show ?thesis by blast
qed

section \<open>The polling loop\<close>

lemma wait_step:
  assumes "status_of e run j \<noteq> ''completed''"
  shows "wait_for_response (Suc fuel) e run j mc w =
         wait_for_response fuel e run (Suc j) mc
           (emit (Sleep 10) (emit (CheckRunStatus (status_of e run j)) w))"
  using assms by (simp add: check_run_status_def Let_def)

lemma wait_never_completed:
  assumes "\<forall>i. status_of e run i \<noteq> ''completed''"
  shows "\<exists>w'. wait_for_response fuel e run j mc w = OutOfFuel w' \<and>
              thread w' = thread w \<and>
              trace w' = trace w @
                concat (map (\<lambda>i. [CheckRunStatus (status_of e run i), Sleep 10]) [j..<j + fuel])"
proof (induction fuel arbitrary: j w)
  case 0
  then show ?case by simp
next
  case (Suc fuel)
  from Suc[of "Suc j" "emit (Sleep 10) (emit (CheckRunStatus (status_of e run j)) w)"]
  obtain w' where w': "wait_for_response fuel e run (Suc j) mc
           (emit (Sleep 10) (emit (CheckRunStatus (status_of e run j)) w)) = OutOfFuel w'"
    "thread w' = thread w"
    "trace w' = (trace w @ [CheckRunStatus (status_of e run j), Sleep 10]) @
                concat (map (\<lambda>i. [CheckRunStatus (status_of e run i), Sleep 10]) [Suc j..<Suc j + fuel])"
    by auto
  have "[j..<j + Suc fuel] = j # [Suc j..<Suc j + fuel]" by (simp add: upt_rec)
  then show ?case using w' assms wait_step[of e run j fuel mc w] by simp
qed

lemma wait_leaves_on_completed:
  assumes "wait_for_response fuel e run j mc w \<noteq> OutOfFuel (result_world (wait_for_response fuel e run j mc w))"
  shows "\<exists>i\<ge>j. status_of e run i = ''completed''"
  using assms
proof (induction fuel arbitrary: j w)
  case 0
  then show ?case by simp
next
  case (Suc fuel)
  show ?case
  proof (cases "status_of e run j = ''completed''")
    case True
    then show ?thesis by auto
  next
    case False
    from Suc.prems have "\<exists>i\<ge>Suc j. status_of e run i = ''completed''"
      unfolding wait_step[OF False] by (rule Suc.IH)
    then show ?thesis by (meson Suc_leD)
  qed
qed

text \<open>
  Claim C2 does not hold of the code: the polling loop tests for \<open>completed\<close> only
  and has no branch for \<open>failed\<close>. With a run that reports \<open>failed\<close> at every poll
  the loop neither returns nor raises: whatever the fuel, it is still polling, and has
  polled that many times with a sleep after each.
\<close>

theorem failed_run_polled_forever:
  "\<forall>fuel. \<exists>w'. wait_for_response fuel env_failed 0 0 None world0 = OutOfFuel w' \<and>
       trace w' = concat (map (\<lambda>i. [CheckRunStatus ''failed'', Sleep 10]) [0..<fuel])"
proof
  fix fuel
  have "\<forall>i. status_of env_failed 0 i \<noteq> ''completed''" by (simp add: env_failed_def)
  from wait_never_completed[OF this, of fuel 0 None world0]
  show "\<exists>w'. wait_for_response fuel env_failed 0 0 None world0 = OutOfFuel w' \<and>
       trace w' = concat (map (\<lambda>i. [CheckRunStatus ''failed'', Sleep 10]) [0..<fuel])"
    by (auto simp add: env_failed_def world0_def)
qed

text \<open>
  Claim C2 as amended. A poll that reads any status other than \<open>completed\<close>
  (\<open>failed\<close> included) is followed by a sleep of 10 and the next poll of the same run:
  no error is surfaced and polling does not stop. A run that never reports
  \<open>completed\<close> is polled for as long as the loop is given fuel. The loop is left, by
  return or by exception, only at a poll that reads \<open>completed\<close>.
\<close>

theorem poll_leaves_only_on_completed:
  "(status_of e run j \<noteq> ''completed'' \<longrightarrow>
      wait_for_response (Suc fuel) e run j mc w =
      wait_for_response fuel e run (Suc j) mc
        (emit (Sleep 10) (emit (CheckRunStatus (status_of e run j)) w))) \<and>
   ((\<forall>i. status_of e run i \<noteq> ''completed'') \<longrightarrow>
      (\<exists>w'. wait_for_response fuel e run j mc w = OutOfFuel w' \<and>
            new_events w w' =
              concat (map (\<lambda>i. [CheckRunStatus (status_of e run i), Sleep 10]) [j..<j + fuel]))) \<and>
   ((\<exists>v w'. wait_for_response fuel e run j mc w = Returns v w') \<or>
    (\<exists>x w'. wait_for_response fuel e run j mc w = Raises x w') \<longrightarrow>
      (\<exists>i\<ge>j. status_of e run i = ''completed''))"
proof (intro conjI impI)
  assume "status_of e run j \<noteq> ''completed''"
  then show "wait_for_response (Suc fuel) e run j mc w =
      wait_for_response fuel e run (Suc j) mc
        (emit (Sleep 10) (emit (CheckRunStatus (status_of e run j)) w))"
    by (rule wait_step)
next
  assume "\<forall>i. status_of e run i \<noteq> ''completed''"
  from wait_never_completed[OF this, of fuel j mc w]
  show "\<exists>w'. wait_for_response fuel e run j mc w = OutOfFuel w' \<and>
            new_events w w' =
              concat (map (\<lambda>i. [CheckRunStatus (status_of e run i), Sleep 10]) [j..<j + fuel])"
    by (auto simp add: new_events_def)
next
  assume "(\<exists>v w'. wait_for_response fuel e run j mc w = Returns v w') \<or>
    (\<exists>x w'. wait_for_response fuel e run j mc w = Raises x w')"
  then have "wait_for_response fuel e run j mc w \<noteq> OutOfFuel (result_world (wait_for_response fuel e run j mc w))"
    by auto
  then show "\<exists>i\<ge>j. status_of e run i = ''completed''" by (rule wait_leaves_on_completed)
qed

theorem poll_leaves_only_on_completed_witness:
  "status_of env_failed 0 0 \<noteq> ''completed'' \<and>
   (\<exists>w'. wait_for_response 2 env_failed 0 0 None world0 = OutOfFuel w' \<and>
         new_events world0 w' =
           [CheckRunStatus ''failed'', Sleep 10, CheckRunStatus ''failed'', Sleep 10])"
proof -
  have a: "\<forall>i. status_of env_failed 0 i \<noteq> ''completed''" by (simp add: env_failed_def)
  have b: "[0..<2] = [0, Suc 0]" by (simp add: upt_rec)
  from poll_leaves_only_on_completed[of env_failed 0 0 2 None world0] a
  show ?thesis by (auto simp add: env_failed_def b)
qed

section \<open>A completed run without a response\<close>

lemma main_silent_example:
  "(case main 2 env_silent ''10.0.0.5'' world0 of
      Raises x w' \<Rightarrow> x = UnboundLocalError \<and> execs w' = 0 | _ \<Rightarrow> False)"
  by code_simp

text \<open>
  Claim C3, evaluated where it fails. In \<open>env_silent\<close> the first run reports
  \<open>completed\<close> and the thread holds no message of the assistant. The guard of line 156
  skips the assignment, line 158 leaves the polling loop all the same, and line 161
  reads \<open>message_content\<close>, which was never bound: \<open>UnboundLocalError\<close> leaves
  \<open>main\<close>, with no action executed.
\<close>

theorem no_response_unbound_local:
  "\<exists>w'. main 2 env_silent ''10.0.0.5'' world0 = Raises UnboundLocalError w' \<and> execs w' = 0"
  using main_silent_example by (cases "main 2 env_silent ''10.0.0.5'' world0") auto

text \<open>
  After the first cycle the list of line 108 is never empty again, since it holds every
  message of the assistant in the thread. When a later run completes without adding a
  message, line 157 reads the previous action once more: here the thread already holds
  the action of an earlier run and the output sent back, the run adds nothing, and the
  poll returns that earlier action.
\<close>

lemma previous_action_read_again:
  "(case wait_for_response 1 env_silent 1 0 None
           (world0\<lparr>thread := [user_message ''objective'',
                               assistant_message env_silent [TextBlock ''nmap 10.0.0.5''],
                               user_message ''output'']\<rparr>) of
      Returns v w' \<Rightarrow> v = Some ''nmap 10.0.0.5'' | _ \<Rightarrow> False)"
  by code_simp

section \<open>The whole loop\<close>





lemma deliver_fields [simp]:
  "thread (deliver e run w) = thread w @ map (assistant_message e) (replies_of e run)"
  "runs (deliver e run w) = runs w" "execs (deliver e run w) = execs w"
  "files (deliver e run w) = files w" "trace (deliver e run w) = trace w"
  by (simp_all add: deliver_def)












end
